theory Spec2Isabelle
  imports Main "HOL-Library.Word" "HOL-Library.Sublist" "HOL-Library.AList"
begin

section \<open>Common data\<close>

text \<open>
  A \<open>Uint8Array\<close> is a list of 8-bit words. JavaScript strings are modelled as
  \<open>string\<close>; only the ASCII letters have case, which is all the source's suffix tests and
  its case-insensitive regular expression can observe (no other code unit lower-cases to one
  of the ASCII letters they mention).
\<close>

type_synonym bytes = "8 word list"

datatype error =
    Error string          \<comment> \<open>\<open>throw new Error(msg)\<close>\<close>
  | FetchRejected         \<comment> \<open>the promise of \<open>fetch\<close> rejects\<close>
  | StreamError           \<comment> \<open>\<open>reader.read()\<close> or \<open>arrayBuffer()\<close> rejects\<close>
  | JsonError             \<comment> \<open>\<open>response.json()\<close> rejects\<close>
  | RangeError            \<comment> \<open>\<open>TypedArray.set\<close> out of bounds\<close>
  | ZipError              \<comment> \<open>JSZip rejects (unreadable archive or entry)\<close>
  | DOMException string   \<comment> \<open>IndexedDB failures\<close>

definition dquote :: char where "dquote = CHR 0x22"
definition squote :: char where "squote = CHR 0x27"

definition startsWith :: "string \<Rightarrow> string \<Rightarrow> bool" where
  "startsWith s p = prefix p s"

definition endsWith :: "string \<Rightarrow> string \<Rightarrow> bool" where
  "endsWith s p = suffix p s"

definition toLowerChar :: "char \<Rightarrow> char" where
  "toLowerChar c =
     (let n = (of_char c :: nat) in if 65 \<le> n \<and> n \<le> 90 then char_of (n + 32) else c)"

definition toLowerCase :: "string \<Rightarrow> string" where
  "toLowerCase s = map toLowerChar s"

section \<open>Catalog types\<close>

text \<open>
  The interfaces \<open>ManifestItem\<close> and \<open>FileItem\<close> as the source declares them; a field
  marked \<open>?\<close> is optional. \<open>id\<close> is a HOL constant, so the field is \<open>itemId\<close> here, and the
  fields of a manifest element carry the prefix \<open>m_\<close>. A \<open>Date\<close> is its time value in
  milliseconds. The status is one of \<open>'remote' | 'downloading' | 'ready' | 'error'\<close>.
\<close>

record ManifestItem =
  m_id :: string
  m_title :: string
  m_file :: string
  m_size :: string
  m_thumbnail :: "string option"

datatype itemStatus = Remote | Downloading | Ready | Failed

record FileItem =
  itemId :: string
  key :: string
  title :: string
  sizeLabel :: string
  thumbnailUrl :: "string option"
  lastModified :: "int option"
  status :: itemStatus
  localUrl :: "string option"
  errorMsg :: "string option"
  downloadProgress :: "nat option"

text \<open>
  A parsed JSON document. The elements of an array are taken at the type the source
  declares for them (\<open>data.map((item: ManifestItem) => ...)\<close>).
\<close>

datatype json =
    JNull
  | JBool bool
  | JNumber int
  | JString string
  | JObject "(string \<times> json) list"
  | JArray "ManifestItem list"

section \<open>s3Service: joinUrl and downloadFile\<close>

text \<open>\<open>baseUrl.replace(/\/+$/, "")\<close>: the trailing run of slashes is removed.\<close>

definition stripTrailingSlashes :: "string \<Rightarrow> string" where
  "stripTrailingSlashes s = rev (dropWhile (\<lambda>c. c = CHR ''/'') (rev s))"

text \<open>\<open>path.replace(/^(\.\/|\/)+/, "")\<close>: leading \<open>./\<close> and \<open>/\<close> are removed, repeatedly.\<close>

fun stripLeading :: "string \<Rightarrow> string" where
  "stripLeading (a # b # rest) =
     (if a = CHR ''.'' \<and> b = CHR ''/'' then stripLeading rest
      else if a = CHR ''/'' then stripLeading (b # rest)
      else a # b # rest)"
| "stripLeading [a] = (if a = CHR ''/'' then [] else [a])"
| "stripLeading [] = []"

definition joinUrl :: "string \<Rightarrow> string \<Rightarrow> string" where
  "joinUrl baseUrl path =
     (if path = [] then baseUrl
      else if startsWith path ''http://'' \<or> startsWith path ''https://'' then path
      else stripTrailingSlashes baseUrl @ ''/'' @ stripLeading path)"

text \<open>
  What \<open>fetch\<close> resolves to. \<open>contentLength\<close> is the \<open>Content-Length\<close> header (absent, or
  a decimal number); \<open>hasBody\<close> says whether \<open>response.body\<close> is a stream; \<open>chunks\<close> are the
  values the stream's reader delivers, in order, before it either reports \<open>done\<close>
  (\<open>streamOk\<close>) or rejects. \<open>arrayBuffer()\<close> reads the same payload in one piece.
\<close>

record response =
  ok :: bool
  httpStatus :: nat
  statusText :: string
  contentLength :: "nat option"
  hasBody :: bool
  chunks :: "bytes list"
  streamOk :: bool
  jsonBody :: "error + json"

text \<open>\<open>contentLength ? parseInt(contentLength, 10) : 0\<close>\<close>

definition totalOf :: "response \<Rightarrow> nat" where
  "totalOf r = (case contentLength r of None \<Rightarrow> 0 | Some n \<Rightarrow> n)"

definition arrayBuffer :: "response \<Rightarrow> error + bytes" where
  "arrayBuffer r = (if streamOk r then Inr (concat (chunks r)) else Inl StreamError)"

text \<open>
  The \<open>while (true)\<close> loop of \<open>downloadFile\<close>: the state is the list of chunks pushed so far,
  the running \<open>received\<close> and the \<open>onProgress\<close> calls made so far.
\<close>

fun readLoop ::
  "bytes list \<Rightarrow> bool \<Rightarrow> nat \<Rightarrow> bytes list \<Rightarrow> nat \<Rightarrow> (nat \<times> nat) list
     \<Rightarrow> (nat \<times> nat) list \<times> (error + bytes list \<times> nat)" where
  "readLoop [] endOk totalLen acc received calls =
     (calls, if endOk then Inr (acc, received) else Inl StreamError)"
| "readLoop (v # rest) endOk totalLen acc received calls =
     readLoop rest endOk totalLen (acc @ [v]) (received + length v)
       (calls @ [(received + length v, totalLen)])"

text \<open>\<open>allChunks.set(chunk, position)\<close>; it throws when the chunk does not fit.\<close>

definition typedSet :: "bytes \<Rightarrow> bytes \<Rightarrow> nat \<Rightarrow> error + bytes" where
  "typedSet target chunk position =
     (if position + length chunk > length target then Inl RangeError
      else Inr (take position target @ chunk @ drop (position + length chunk) target))"

fun combineChunks :: "bytes list \<Rightarrow> bytes \<Rightarrow> nat \<Rightarrow> error + bytes" where
  "combineChunks [] allChunks position = Inr allChunks"
| "combineChunks (chunk # rest) allChunks position =
     (case typedSet allChunks chunk position of
        Inl e \<Rightarrow> Inl e
      | Inr allChunks' \<Rightarrow> combineChunks rest allChunks' (position + length chunk))"

text \<open>
  \<open>downloadFile\<close> returns the \<open>onProgress\<close> calls it made, in order, and its result.
  \<open>onProgress\<close> says whether the optional callback was supplied.
\<close>

definition downloadFile ::
  "(string \<Rightarrow> error + response) \<Rightarrow> string \<Rightarrow> string \<Rightarrow> bool
     \<Rightarrow> (nat \<times> nat) list \<times> (error + bytes)" where
  "downloadFile fetch baseUrl fileName onProgress =
     (case fetch (joinUrl baseUrl fileName) of
        Inl e \<Rightarrow> ([], Inl e)
      | Inr r \<Rightarrow>
          if \<not> ok r then ([], Inl (Error (''Failed to download file: '' @ statusText r)))
          else
            let totalLen = totalOf r in
            if \<not> hasBody r \<or> \<not> onProgress then
              (case arrayBuffer r of
                 Inl e \<Rightarrow> ([], Inl e)
               | Inr buf \<Rightarrow> (if onProgress \<and> totalLen > 0 then [(totalLen, totalLen)] else [], Inr buf))
            else
              (case readLoop (chunks r) (streamOk r) totalLen [] 0 [] of
                 (calls, Inl e) \<Rightarrow> (calls, Inl e)
               | (calls, Inr (cs, received)) \<Rightarrow>
                   (calls, combineChunks cs (replicate received 0) 0)))"

text \<open>\<open>Array.isArray(data)\<close>\<close>

fun isArray :: "json \<Rightarrow> bool" where
  "isArray (JArray _) = True"
| "isArray _ = False"

fun arrayItems :: "json \<Rightarrow> ManifestItem list" where
  "arrayItems (JArray items) = items"
| "arrayItems _ = []"

text \<open>\<open>a || b\<close> on strings: the empty string is falsy.\<close>

definition orElse :: "string \<Rightarrow> string \<Rightarrow> string" where
  "orElse a b = (if a = [] then b else a)"

definition toFileItem :: "string \<Rightarrow> ManifestItem \<Rightarrow> FileItem" where
  "toFileItem baseUrl item =
     \<lparr> itemId = orElse (m_id item) (m_file item),
       key = m_file item,
       title = orElse (m_title item) (m_file item),
       sizeLabel = orElse (m_size item) ''Unknown'',
       thumbnailUrl =
         (case m_thumbnail item of
            None \<Rightarrow> None
          | Some t \<Rightarrow> if t = [] then None else Some (joinUrl baseUrl t)),
       lastModified = None,
       status = Remote,
       localUrl = None,
       errorMsg = None,
       downloadProgress = None \<rparr>"

text \<open>The \<open>catch\<close> block of \<open>fetchFileList\<close> logs the error and throws it again.\<close>

definition fetchFileList :: "(string \<Rightarrow> error + response) \<Rightarrow> string \<Rightarrow> error + FileItem list" where
  "fetchFileList fetch baseUrl =
     (case fetch (joinUrl baseUrl ''library.json'') of
        Inl e \<Rightarrow> Inl e
      | Inr r \<Rightarrow>
          if \<not> ok r then
            (if httpStatus r = 404 then Inl (Error ''library.json not found at this URL.'')
             else Inl (Error (''Failed to load library: '' @ statusText r)))
          else
            (case jsonBody r of
               Inl e \<Rightarrow> Inl e
             | Inr data \<Rightarrow>
                 if \<not> isArray data then
                   Inl (Error ''Invalid library format. Expected a JSON array.'')
                 else Inr (map (toFileItem baseUrl) (arrayItems data))))"

section \<open>dbService: the IndexedDB wrapper\<close>

text \<open>
  The database \<open>CloudZipDB\<close>: its version (0 while it does not exist) and its object
  stores, each a map from keys to stored values. A stored value is a \<open>Blob\<close> (bytes and
  media type), a \<open>Uint8Array\<close>, or anything else.
\<close>

datatype idbValue = Blob bytes string | U8 bytes | OtherValue

record idb =
  version :: nat
  stores :: "string \<rightharpoonup> (string \<rightharpoonup> idbValue)"

text \<open>What the browser does with one call: nothing wrong, the open request fails, or
  the request on the object store fails.\<close>

datatype io = IoOk | OpenFails | RequestFails

definition STORE_NAME :: string where "STORE_NAME = ''files''"
definition DB_VERSION :: nat where "DB_VERSION = 1"

text \<open>
  \<open>openDB\<close>: a database older than \<open>DB_VERSION\<close> is upgraded, which creates the object
  store when it is missing; a newer one cannot be opened.
\<close>

definition openDB :: "io \<Rightarrow> idb \<Rightarrow> error + idb" where
  "openDB env db =
     (if env = OpenFails then Inl (DOMException ''UnknownError'')
      else if version db > DB_VERSION then Inl (DOMException ''VersionError'')
      else if version db < DB_VERSION then
        Inr (db\<lparr> version := DB_VERSION,
                 stores := (case stores db STORE_NAME of
                              None \<Rightarrow> (stores db)(STORE_NAME \<mapsto> Map.empty)
                            | Some _ \<Rightarrow> stores db) \<rparr>)
      else Inr db)"

definition saveFileToDB :: "io \<Rightarrow> string \<Rightarrow> bytes \<Rightarrow> idb \<Rightarrow> (error + unit) \<times> idb" where
  "saveFileToDB env k data db =
     (case openDB env db of
        Inl e \<Rightarrow> (Inl e, db)
      | Inr db1 \<Rightarrow>
          (case stores db1 STORE_NAME of
             None \<Rightarrow> (Inl (DOMException ''NotFoundError''), db1)
           | Some store \<Rightarrow>
               if env = RequestFails then (Inl (DOMException ''RequestError''), db1)
               else (Inr (),
                     db1\<lparr> stores := (stores db1)
                            (STORE_NAME \<mapsto> store(k \<mapsto> Blob data ''application/zip'')) \<rparr>)))"

definition getFileFromDB :: "io \<Rightarrow> string \<Rightarrow> idb \<Rightarrow> (error + bytes option) \<times> idb" where
  "getFileFromDB env k db =
     (case openDB env db of
        Inl e \<Rightarrow> (Inl e, db)
      | Inr db1 \<Rightarrow>
          (case stores db1 STORE_NAME of
             None \<Rightarrow> (Inl (DOMException ''NotFoundError''), db1)
           | Some store \<Rightarrow>
               if env = RequestFails then (Inl (DOMException ''RequestError''), db1)
               else
                 (case store k of
                    Some (Blob buffer _) \<Rightarrow> (Inr (Some buffer), db1)
                  | Some (U8 result) \<Rightarrow> (Inr (Some result), db1)
                  | _ \<Rightarrow> (Inr None, db1))))"

text \<open>
  The states of the database this program can produce: the version is at most
  \<open>DB_VERSION\<close>, and once it is \<open>DB_VERSION\<close> the object store exists (only the upgrade
  in \<open>openDB\<close> raises the version, and it creates the store).
\<close>

definition dbInv :: "idb \<Rightarrow> bool" where
  "dbInv db = (version db \<le> DB_VERSION
               \<and> (version db = DB_VERSION \<longrightarrow> stores db STORE_NAME \<noteq> None))"

definition keyAbsent :: "string \<Rightarrow> idb \<Rightarrow> bool" where
  "keyAbsent k db = (case stores db STORE_NAME of None \<Rightarrow> True | Some store \<Rightarrow> store k = None)"

section \<open>zipService: processZipContent\<close>

text \<open>
  A loaded archive is the list of the entries of \<open>loadedZip.files\<close>, in the order of
  \<open>Object.keys\<close>. Reading an entry (\<open>async("string")\<close>, \<open>async("blob")\<close>) gives its
  content, or rejects when the entry cannot be decompressed (\<open>content = None\<close>).
\<close>

record zipEntry =
  name :: string
  dir :: bool
  content :: "string option"

text \<open>
  JSZip's \<open>file(name)\<close>: the entry stored under that exact name, unless it is a folder.
  JSZip's \<open>file(regex)\<close>: the entries that are not folders and whose whole relative path
  the regular expression accepts, in order.
\<close>

definition zipFile :: "zipEntry list \<Rightarrow> string \<Rightarrow> zipEntry option" where
  "zipFile files n =
     (case find (\<lambda>e. name e = n) files of
        None \<Rightarrow> None
      | Some e \<Rightarrow> if dir e then None else Some e)"

definition zipFileRegex :: "zipEntry list \<Rightarrow> (string \<Rightarrow> bool) \<Rightarrow> zipEntry list" where
  "zipFileRegex files accepts = filter (\<lambda>e. \<not> dir e \<and> accepts (name e)) files"

text \<open>
  \<open>/^index\.html$/i\<close>: anchored at both ends, so it accepts a path exactly when the whole
  path is \<open>index.html\<close> up to the case of its letters.
\<close>

definition indexHtmlRegex :: "string \<Rightarrow> bool" where
  "indexHtmlRegex path = (toLowerCase path = ''index.html'')"

definition selectEntry :: "zipEntry list \<Rightarrow> error + zipEntry" where
  "selectEntry files =
     (case zipFileRegex files indexHtmlRegex of
        entryFile # _ \<Rightarrow> Inr entryFile
      | [] \<Rightarrow>
          (case filter (\<lambda>n. endsWith (toLowerCase n) ''.html'') (map name files) of
             [] \<Rightarrow> Inl (Error ''No HTML file found in the archive.'')
           | n # _ \<Rightarrow>
               (case zipFile files n of
                  None \<Rightarrow> Inl (Error ''No HTML file found in the archive.'')
                | Some entryFile \<Rightarrow> Inr entryFile)))"

text \<open>
  Entry-point selection in the words of the specification, to be compared with
  \<open>selectEntry\<close>: a file named \<open>index.html\<close>, whatever the case of the letters, in any
  folder of the archive; failing that the first entry whose path ends in \<open>.html\<close> or
  \<open>.htm\<close>; failing that an error.
\<close>

definition baseName :: "string \<Rightarrow> string" where
  "baseName path = rev (takeWhile (\<lambda>c. c \<noteq> CHR ''/'') (rev path))"

definition specSelectEntry :: "zipEntry list \<Rightarrow> error + zipEntry" where
  "specSelectEntry files =
     (case find (\<lambda>e. \<not> dir e \<and> toLowerCase (baseName (name e)) = ''index.html'') files of
        Some e \<Rightarrow> Inr e
      | None \<Rightarrow>
          (case find (\<lambda>e. endsWith (name e) ''.html'' \<or> endsWith (name e) ''.htm'') files of
             Some e \<Rightarrow> Inr e
           | None \<Rightarrow> Inl (Error ''No HTML file found in the archive.'')))"

text \<open>
  The object URLs of the page: \<open>URL.createObjectURL\<close> registers a blob (media type and
  bytes) under a fresh URL, and the blob stays alive until that URL is revoked. The URL is
  opaque to the program; here the \<open>n\<close>-th one is \<open>blob:n\<close>.
\<close>

record blobStore =
  nextId :: nat
  live :: "(string \<times> string \<times> string) list"

fun decimal :: "nat \<Rightarrow> string" where
  "decimal n =
     (if n < 10 then [char_of (48 + n)]
      else decimal (n div 10) @ [char_of (48 + n mod 10)])"

definition blobUrl :: "nat \<Rightarrow> string" where
  "blobUrl n = ''blob:'' @ decimal n"

definition createObjectURL :: "string \<Rightarrow> string \<Rightarrow> blobStore \<Rightarrow> string \<times> blobStore" where
  "createObjectURL mimeType blob s =
     (blobUrl (nextId s),
      s\<lparr> nextId := Suc (nextId s), live := live s @ [(blobUrl (nextId s), mimeType, blob)] \<rparr>)"

definition createBlobUrl ::
  "zipEntry list \<Rightarrow> string \<Rightarrow> string \<Rightarrow> blobStore \<Rightarrow> (error + string option) \<times> blobStore" where
  "createBlobUrl files fileName mimeType s =
     (case zipFile files fileName of
        None \<Rightarrow> (Inr None, s)
      | Some file \<Rightarrow>
          (case content file of
             None \<Rightarrow> (Inl ZipError, s)
           | Some blob \<Rightarrow>
               (case createObjectURL mimeType blob s of (url, s') \<Rightarrow> (Inr (Some url), s'))))"

definition mimeOf :: "string \<Rightarrow> string" where
  "mimeOf lower =
     (if endsWith lower ''.png'' then ''image/png''
      else if endsWith lower ''.jpg'' \<or> endsWith lower ''.jpeg'' then ''image/jpeg''
      else if endsWith lower ''.svg'' then ''image/svg+xml''
      else if endsWith lower ''.css'' then ''text/css''
      else if endsWith lower ''.js'' then ''application/javascript''
      else '''')"

text \<open>
  The loop over the file names. \<open>assetMap\<close> is kept as an association list in key order:
  assigning to a new key appends it, assigning to an old one keeps its place. (JavaScript
  lists keys that are canonical array indices first; a key of \<open>assetMap\<close> ends in one of
  the extensions below, so it is never one.) A failing \<open>await\<close> leaves the loop at once,
  with the object URLs as they are at that point.
\<close>

fun materialize ::
  "zipEntry list \<Rightarrow> string list \<Rightarrow> (string \<times> string) list \<Rightarrow> blobStore
     \<Rightarrow> (error + (string \<times> string) list) \<times> blobStore" where
  "materialize files [] assetMap s = (Inr assetMap, s)"
| "materialize files (filename # rest) assetMap s =
     (let mime = mimeOf (toLowerCase filename) in
      if mime \<noteq> [] then
        (case createBlobUrl files filename mime s of
           (Inl e, s') \<Rightarrow> (Inl e, s')
         | (Inr None, s') \<Rightarrow> materialize files rest assetMap s'
         | (Inr (Some url), s') \<Rightarrow> materialize files rest (AList.update filename url assetMap) s')
      else materialize files rest assetMap s)"

text \<open>
  The entries that get a handle, and the handles: an asset entry is a file whose
  lower-cased name \<open>mimeOf\<close> classifies; its handle is the object URL, the media type and
  the entry's bytes. \<open>handlesFor n es\<close> are the handles of the entries \<open>es\<close> when the next
  free URL is the \<open>n\<close>-th, and \<open>assetsFor n es\<close> the corresponding \<open>assetMap\<close>.
\<close>

definition assetEntry :: "zipEntry \<Rightarrow> bool" where
  "assetEntry e = (\<not> dir e \<and> mimeOf (toLowerCase (name e)) \<noteq> [])"

definition handleOf :: "nat \<times> zipEntry \<Rightarrow> string \<times> string \<times> string" where
  "handleOf p =
     (blobUrl (fst p), mimeOf (toLowerCase (name (snd p))),
      case content (snd p) of None \<Rightarrow> [] | Some blob \<Rightarrow> blob)"

definition handlesFor :: "nat \<Rightarrow> zipEntry list \<Rightarrow> (string \<times> string \<times> string) list" where
  "handlesFor n es = map handleOf (enumerate n es)"

definition assetsFor :: "nat \<Rightarrow> zipEntry list \<Rightarrow> (string \<times> string) list" where
  "assetsFor n es = map (\<lambda>p. (name (snd p), blobUrl (fst p))) (enumerate n es)"

text \<open>An entry is readable when materializing it cannot fail: it is no asset entry, or its
  content can be decompressed.\<close>

definition readable :: "zipEntry \<Rightarrow> bool" where
  "readable e = (assetEntry e \<longrightarrow> content e \<noteq> None)"

text \<open>The extensions and media types as the specification lists them.\<close>

definition specMimeTable :: "(string \<times> string) list" where
  "specMimeTable =
     [(''.png'', ''image/png''), (''.jpg'', ''image/jpeg''), (''.jpeg'', ''image/jpeg''),
      (''.svg'', ''image/svg+xml''), (''.css'', ''text/css''),
      (''.js'', ''application/javascript'')]"

text \<open>
  The regular expression \<open>(src|href)=["'](\./)?NAME["']\<close>, where \<open>NAME\<close> is the file name
  with every special character escaped, so that it stands for itself. Each matcher returns
  what is left of the text after the part it matched.
\<close>

definition matchLit :: "string \<Rightarrow> string \<Rightarrow> string option" where
  "matchLit lit text = (if prefix lit text then Some (drop (length lit) text) else None)"

fun matchQuote :: "string \<Rightarrow> string option" where
  "matchQuote [] = None"
| "matchQuote (c # rest) = (if c = dquote \<or> c = squote then Some rest else None)"

definition matchNameQuote :: "string \<Rightarrow> string \<Rightarrow> string option" where
  "matchNameQuote filename text =
     (case matchLit filename text of None \<Rightarrow> None | Some rest \<Rightarrow> matchQuote rest)"

text \<open>The optional group \<open>(\./)?\<close> is greedy: it is tried first, and given up when the
  rest of the expression does not match after it.\<close>

definition matchPath :: "string \<Rightarrow> string \<Rightarrow> string option" where
  "matchPath filename text =
     (case (case matchLit ''./'' text of
              None \<Rightarrow> None
            | Some rest \<Rightarrow> matchNameQuote filename rest) of
        Some rest \<Rightarrow> Some rest
      | None \<Rightarrow> matchNameQuote filename text)"

definition matchAttr :: "string \<Rightarrow> string \<Rightarrow> string \<Rightarrow> (string \<times> string) option" where
  "matchAttr attr filename text =
     (case matchLit attr text of
        None \<Rightarrow> None
      | Some t0 \<Rightarrow>
          (case matchLit ''='' t0 of
             None \<Rightarrow> None
           | Some t1 \<Rightarrow>
               (case matchQuote t1 of
                  None \<Rightarrow> None
                | Some t2 \<Rightarrow>
                    (case matchPath filename t2 of
                       None \<Rightarrow> None
                     | Some rest \<Rightarrow> Some (attr, rest)))))"

definition matchRef :: "string \<Rightarrow> string \<Rightarrow> (string \<times> string) option" where
  "matchRef filename text =
     (case matchAttr ''src'' filename text of
        Some m \<Rightarrow> Some m
      | None \<Rightarrow> matchAttr ''href'' filename text)"

text \<open>
  \<open>htmlContent.replace(regex, `$1="${url}"`)\<close> with the \<open>g\<close> flag: the text is scanned from
  the left; at a match the replacement is emitted and the scan goes on after the match
  (\<open>skip\<close> counts the characters of the match still to pass over); elsewhere the character
  is copied. An object URL contains no \<open>$\<close>, so the replacement text is the attribute name,
  \<open>="\<close>, the URL and \<open>"\<close>.
\<close>

fun replaceScan :: "string \<Rightarrow> string \<Rightarrow> nat \<Rightarrow> string \<Rightarrow> string" where
  "replaceScan filename url skip [] = []"
| "replaceScan filename url (Suc skip) (c # rest) = replaceScan filename url skip rest"
| "replaceScan filename url 0 (c # rest) =
     (case matchRef filename (c # rest) of
        None \<Rightarrow> c # replaceScan filename url 0 rest
      | Some (attr, after) \<Rightarrow>
          attr @ ''='' @ [dquote] @ url @ [dquote]
            @ replaceScan filename url (length rest - length after) rest)"

definition replaceReferences :: "(string \<times> string) list \<Rightarrow> string \<Rightarrow> string" where
  "replaceReferences assetMap htmlContent =
     foldl (\<lambda>html (filename, url). replaceScan filename url 0 html) htmlContent assetMap"

text \<open>
  The texts the regular expression of \<open>filename\<close> matches: an attribute name, \<open>=\<close>, a
  quote, optionally \<open>./\<close>, the file name, a quote, where the two quotes are each a double
  or a single quote, independently. \<open>refAt\<close> says that such a text starts at position
  \<open>i\<close>, \<open>hasRef\<close> that one starts somewhere.
\<close>

definition isQuote :: "char \<Rightarrow> bool" where
  "isQuote c = (c = dquote \<or> c = squote)"

definition refForm :: "string \<Rightarrow> char \<Rightarrow> string \<Rightarrow> string \<Rightarrow> char \<Rightarrow> string" where
  "refForm attr q1 dot filename q2 = attr @ ''='' @ [q1] @ dot @ filename @ [q2]"

definition refForms :: "string \<Rightarrow> string list" where
  "refForms filename =
     concat (map (\<lambda>attr. concat (map (\<lambda>q1. concat (map (\<lambda>dot.
       map (\<lambda>q2. refForm attr q1 dot filename q2) [dquote, squote])
       [''./'', []])) [dquote, squote])) [''src'', ''href''])"

definition refAt :: "string \<Rightarrow> string \<Rightarrow> nat \<Rightarrow> bool" where
  "refAt filename txt i = list_ex (\<lambda>form. prefix form (drop i txt)) (refForms filename)"

definition hasRef :: "string \<Rightarrow> string \<Rightarrow> bool" where
  "hasRef filename txt = list_ex (refAt filename txt) [0..<length txt]"

text \<open>
  The occurrences in the words of the specification: the attribute \<open>src\<close> or \<open>href\<close>, with
  its value in double quotes or in single quotes, the value being the file name or \<open>./\<close>
  and the file name.
\<close>

definition specRefForms :: "string \<Rightarrow> string list" where
  "specRefForms filename =
     concat (map (\<lambda>attr. concat (map (\<lambda>q. map (\<lambda>dot. refForm attr q dot filename q)
       [''./'', []]) [dquote, squote])) [''src'', ''href''])"

definition specHasRef :: "string \<Rightarrow> string \<Rightarrow> bool" where
  "specHasRef filename txt =
     list_ex (\<lambda>i. list_ex (\<lambda>form. prefix form (drop i txt)) (specRefForms filename))
       [0..<length txt]"

text \<open>
  \<open>processZipContent\<close>, from the result of \<open>zip.loadAsync(zipData)\<close> on. It returns the
  rewritten document or the error thrown, and the object URLs as it leaves them.
\<close>

definition processZipContent ::
  "error + zipEntry list \<Rightarrow> blobStore \<Rightarrow> (error + string) \<times> blobStore" where
  "processZipContent loadedZip s =
     (case loadedZip of
        Inl e \<Rightarrow> (Inl e, s)
      | Inr files \<Rightarrow>
          (case selectEntry files of
             Inl e \<Rightarrow> (Inl e, s)
           | Inr entryFile \<Rightarrow>
               (case content entryFile of
                  None \<Rightarrow> (Inl ZipError, s)
                | Some htmlContent \<Rightarrow>
                    (case materialize files (map name files) [] s of
                       (Inl e, s') \<Rightarrow> (Inl e, s')
                     | (Inr assetMap, s') \<Rightarrow>
                         (Inr (replaceReferences assetMap htmlContent), s')))))"

section \<open>App: handleDownload\<close>

text \<open>
  The state updates of \<open>handleDownload\<close>, each a \<open>setFiles(prev => prev.map(...))\<close>, applied
  in the order the function issues them. \<open>clock i\<close> is \<open>Date.now()\<close> at the \<open>i\<close>-th
  progress callback. \<open>percentage received total\<close> is
  \<open>Math.min(Math.round((received / total) * 100), 99)\<close>; the source computes it in double
  precision floating point, which is not modelled, so the function is a parameter of
  \<open>progressUpdates\<close> and \<open>handleDownload\<close>.
\<close>

definition markDownloading :: "string \<Rightarrow> FileItem list \<Rightarrow> FileItem list" where
  "markDownloading k prev =
     map (\<lambda>f. if key f = k then f\<lparr> status := Downloading, downloadProgress := Some 0 \<rparr> else f) prev"

fun progressUpdates ::
  "(nat \<Rightarrow> nat \<Rightarrow> nat) \<Rightarrow> (nat \<Rightarrow> int) \<Rightarrow> string \<Rightarrow> nat \<Rightarrow> int \<Rightarrow> (nat \<times> nat) list
     \<Rightarrow> FileItem list \<Rightarrow> FileItem list" where
  "progressUpdates percentage clock k i lastUpdate [] prev = prev"
| "progressUpdates percentage clock k i lastUpdate ((received, totalLen) # calls) prev =
     (let now = clock i in
      if now - lastUpdate > 100 \<and> totalLen > 0 then
        progressUpdates percentage clock k (Suc i) now calls
          (map (\<lambda>f. if key f = k \<and> downloadProgress f \<noteq> Some (percentage received totalLen)
                     then f\<lparr> downloadProgress := Some (percentage received totalLen) \<rparr>
                     else f) prev)
      else progressUpdates percentage clock k (Suc i) lastUpdate calls prev)"

definition markSaving :: "string \<Rightarrow> FileItem list \<Rightarrow> FileItem list" where
  "markSaving k prev = map (\<lambda>f. if key f = k then f\<lparr> downloadProgress := Some 100 \<rparr> else f) prev"

definition markReady :: "string \<Rightarrow> FileItem list \<Rightarrow> FileItem list" where
  "markReady k prev =
     map (\<lambda>f. if key f = k then f\<lparr> status := Ready, downloadProgress := None \<rparr> else f) prev"

definition markError :: "string \<Rightarrow> FileItem list \<Rightarrow> FileItem list" where
  "markError k prev =
     map (\<lambda>f. if key f = k then f\<lparr> status := Failed, errorMsg := Some ''Download failed'' \<rparr>
               else f) prev"

definition handleDownload ::
  "string option \<Rightarrow> (string \<Rightarrow> error + response) \<Rightarrow> io \<Rightarrow> (nat \<Rightarrow> nat \<Rightarrow> nat)
     \<Rightarrow> (nat \<Rightarrow> int) \<Rightarrow> string \<Rightarrow> FileItem list \<Rightarrow> idb \<Rightarrow> FileItem list \<times> idb" where
  "handleDownload config fetch env percentage clock k files db =
     (case config of
        None \<Rightarrow> (files, db)
      | Some url \<Rightarrow>
          (case downloadFile fetch url k True of
             (calls, Inl e) \<Rightarrow>
               (markError k (progressUpdates percentage clock k 0 0 calls (markDownloading k files)), db)
           | (calls, Inr zipData) \<Rightarrow>
               (case saveFileToDB env k zipData db of
                  (Inl e, db') \<Rightarrow>
                    (markError k (markSaving k
                       (progressUpdates percentage clock k 0 0 calls (markDownloading k files))), db')
                | (Inr _, db') \<Rightarrow>
                    (markReady k (markSaving k
                       (progressUpdates percentage clock k 0 0 calls (markDownloading k files))), db'))))"

text \<open>\<open>FileCard\<close>: what a click on the card's button does in each status.\<close>

datatype cardAction = StartDownload | StartPlay | NoAction

fun cardButton :: "itemStatus \<Rightarrow> cardAction" where
  "cardButton Remote = StartDownload"
| "cardButton Downloading = NoAction"
| "cardButton Ready = StartPlay"
| "cardButton Failed = StartDownload"

section \<open>Example inputs\<close>

definition exampleResponse :: "bytes list \<Rightarrow> nat option \<Rightarrow> bool \<Rightarrow> response" where
  "exampleResponse cs len body =
     \<lparr> ok = True, httpStatus = 200, statusText = ''OK'', contentLength = len,
       hasBody = body, chunks = cs, streamOk = True, jsonBody = Inl JsonError \<rparr>"

definition exampleManifest :: "json \<Rightarrow> response" where
  "exampleManifest data =
     \<lparr> ok = True, httpStatus = 200, statusText = ''OK'', contentLength = None,
       hasBody = True, chunks = [], streamOk = True, jsonBody = Inr data \<rparr>"

definition emptyDB :: idb where
  "emptyDB = \<lparr> version = 0, stores = Map.empty \<rparr>"

definition exampleItem :: FileItem where
  "exampleItem =
     \<lparr> itemId = ''demo.zip'', key = ''demo.zip'', title = ''Demo'', sizeLabel = ''Unknown'',
       thumbnailUrl = None, lastModified = None, status = Remote, localUrl = None,
       errorMsg = None, downloadProgress = None \<rparr>"

definition fileEntry :: "string \<Rightarrow> string option \<Rightarrow> zipEntry" where
  "fileEntry n c = \<lparr> name = n, dir = False, content = c \<rparr>"

definition noBlobs :: blobStore where
  "noBlobs = \<lparr> nextId = 0, live = [] \<rparr>"

definition exampleArchive :: "zipEntry list" where
  "exampleArchive =
     [fileEntry ''index.html'' (Some ''<html></html>''),
      fileEntry ''logo.PNG'' (Some ''PNG''),
      \<lparr> name = ''img/'', dir = True, content = None \<rparr>,
      fileEntry ''anim.gif'' (Some ''GIF''),
      fileEntry ''font.woff'' (Some ''WOFF''),
      fileEntry ''css/style.css'' (Some ''body {}'')]"

definition brokenArchivePre :: "zipEntry list" where
  "brokenArchivePre =
     [fileEntry ''index.html'' (Some ''<html></html>''), fileEntry ''a.png'' (Some ''PNG'')]"

definition exampleHtmlPost :: string where
  "exampleHtmlPost = ''><img src='' @ [dquote] @ ''missing.png'' @ [dquote] @ ''>''"

definition mixedQuoteHtml :: string where
  "mixedQuoteHtml = ''<img src='' @ [dquote] @ ''logo.png'' @ [squote] @ ''>''"

section \<open>Streaming fetch: results\<close>

lemma readLoop_result:
  "readLoop vs endOk totalLen acc received calls =
     (calls @ map (\<lambda>k. (received + sum_list (map length (take (Suc k) vs)), totalLen)) [0..<length vs],
      if endOk then Inr (acc @ vs, received + sum_list (map length vs)) else Inl StreamError)"
proof (induction vs arbitrary: acc received calls)
  case Nil
  then show ?case by simp
next
  case (Cons v vs)
  have "map (\<lambda>k. (received + sum_list (map length (take (Suc k) (v # vs))), totalLen))
          [0..<length (v # vs)]
        = (received + length v, totalLen) #
          map (\<lambda>k. (received + length v + sum_list (map length (take (Suc k) vs)), totalLen))
            [0..<length vs]"
    by (simp add: upt_conv_Cons map_Suc_upt [symmetric] add.assoc del: upt_Suc)
  then show ?case
    by (simp add: Cons.IH add.assoc)
qed

lemma combineChunks_concat:
  "length allChunks = position + sum_list (map length cs) \<Longrightarrow>
   combineChunks cs allChunks position = Inr (take position allChunks @ concat cs)"
proof (induction cs arbitrary: allChunks position)
  case Nil
  then show ?case by simp
next
  case (Cons c cs)
  let ?all' = "take position allChunks @ c @ drop (position + length c) allChunks"
  have fits: "\<not> position + length c > length allChunks"
    using Cons.prems by simp
  have len: "length ?all' = (position + length c) + sum_list (map length cs)"
    using Cons.prems by simp
  have "combineChunks (c # cs) allChunks position = combineChunks cs ?all' (position + length c)"
    using fits by (simp add: typedSet_def)
  also have "\<dots> = Inr (take (position + length c) ?all' @ concat cs)"
    by (rule Cons.IH [OF len])
  also have "take (position + length c) ?all' = take position allChunks @ c"
    using Cons.prems by simp
  finally show ?case by simp
qed

text \<open>
  C5. A successful streamed fetch (the response is ok, has a body stream that ends with
  \<open>done\<close>, and a progress callback was supplied) returns exactly the concatenation of the
  chunks in the order they were received, whatever their sizes; its length is the sum of the
  chunk lengths.
\<close>

theorem downloadFile_stream_concat:
  assumes "fetch (joinUrl baseUrl fileName) = Inr r"
    and "ok r" and "hasBody r" and "streamOk r"
  shows "\<exists>bs. snd (downloadFile fetch baseUrl fileName True) = Inr bs
           \<and> bs = concat (chunks r)
           \<and> length bs = sum_list (map length (chunks r))"
proof -
  have "combineChunks (chunks r) (replicate (sum_list (map length (chunks r))) 0) 0
          = Inr (concat (chunks r))"
    using combineChunks_concat [of "replicate (sum_list (map length (chunks r))) 0" 0 "chunks r"]
    by simp
  then have "snd (downloadFile fetch baseUrl fileName True) = Inr (concat (chunks r))"
    using assms by (simp add: downloadFile_def readLoop_result)
  then show ?thesis
    by (simp add: length_concat)
qed

theorem downloadFile_stream_concat_witness:
  "ok (exampleResponse [[1, 2], [], [3]] (Some 3) True)
   \<and> snd (downloadFile (\<lambda>u. Inr (exampleResponse [[1, 2], [], [3]] (Some 3) True))
            ''https://example.test/lib'' ''demo.zip'' True) = Inr [1, 2, 3]"
  using downloadFile_stream_concat
    [of "\<lambda>u. Inr (exampleResponse [[1, 2], [], [3]] (Some 3) True)"
        "''https://example.test/lib''" "''demo.zip''"
        "exampleResponse [[1, 2], [], [3]] (Some 3) True"]
  by (simp add: exampleResponse_def)

lemma readLoop_sorted:
  "sorted (map fst calls) \<Longrightarrow> \<forall>c \<in> set calls. fst c \<le> received \<Longrightarrow>
   sorted (map fst (fst (readLoop vs endOk totalLen acc received calls)))"
proof (induction vs arbitrary: acc received calls)
  case Nil
  then show ?case by simp
next
  case (Cons v vs)
  have s: "sorted (map fst (calls @ [(received + length v, totalLen)]))"
    using Cons.prems by (auto simp: sorted_append)
  have b: "\<forall>c \<in> set (calls @ [(received + length v, totalLen)]). fst c \<le> received + length v"
    using Cons.prems by auto
  show ?case
    using Cons.IH [OF s b] by simp
qed

lemma readLoop_calls:
  "fst (readLoop vs endOk totalLen acc received calls) =
     calls @ map (\<lambda>k. (received + sum_list (map length (take (Suc k) vs)), totalLen)) [0..<length vs]"
  by (simp add: readLoop_result)

lemma readLoop_last:
  assumes "vs \<noteq> []"
  shows "last (fst (readLoop vs endOk totalLen acc received calls))
           = (received + sum_list (map length vs), totalLen)"
proof -
  have "[0..<length vs] \<noteq> []" using assms by simp
  then show ?thesis
    using assms by (simp add: readLoop_calls last_map del: upt_eq_Nil_conv)
qed

section \<open>Progress reporting\<close>

text \<open>
  C4 (as the code has it). For every successful fetch with a progress callback supplied,
  the \<open>received\<close> values of the \<open>onProgress\<close> calls are non-decreasing. When the body is
  streamed, \<open>onProgress\<close> is called once for each chunk delivered, so not at all when the
  stream delivers none, and the last call reports \<open>received\<close> equal to the number of bytes
  returned with the \<open>total\<close> taken from the \<open>Content-Length\<close> header. When the body is not
  streamed, the only call is \<open>(total, total)\<close>, made when \<open>total > 0\<close>.
\<close>

theorem downloadFile_progress:
  assumes "fetch (joinUrl baseUrl fileName) = Inr r"
    and "downloadFile fetch baseUrl fileName True = (calls, Inr bs)"
  shows "sorted (map fst calls)
       \<and> (hasBody r \<longrightarrow> length calls = length (chunks r)
             \<and> (calls \<noteq> [] \<longrightarrow> last calls = (length bs, totalOf r)))
       \<and> (\<not> hasBody r \<longrightarrow> calls = (if totalOf r > 0 then [(totalOf r, totalOf r)] else []))"
proof (cases "hasBody r")
  case False
  then show ?thesis
    using assms by (auto simp: downloadFile_def arrayBuffer_def Let_def split: if_splits)
next
  case True
  have okr: "ok r" and sok: "streamOk r"
    using assms True by (auto simp: downloadFile_def readLoop_result Let_def split: if_splits)
  have calls: "calls = fst (readLoop (chunks r) True (totalOf r) [] 0 [])"
    using assms True okr sok by (simp add: downloadFile_def readLoop_result Let_def)
  have "combineChunks (chunks r) (replicate (sum_list (map length (chunks r))) 0) 0
          = Inr (concat (chunks r))"
    using combineChunks_concat [of "replicate (sum_list (map length (chunks r))) 0" 0 "chunks r"]
    by simp
  then have bs: "bs = concat (chunks r)"
    using assms True okr sok by (simp add: downloadFile_def readLoop_result Let_def)
  have 1: "sorted (map fst calls)"
    unfolding calls by (rule readLoop_sorted) simp_all
  have 2: "length calls = length (chunks r)"
    unfolding calls by (simp add: readLoop_calls)
  have 3: "last calls = (length bs, totalOf r)" if "calls \<noteq> []"
  proof -
    have "chunks r \<noteq> []" using that 2 by auto
    then show ?thesis
      unfolding calls bs by (simp add: readLoop_last length_concat)
  qed
  show ?thesis using True 1 2 3 by simp
qed

theorem downloadFile_progress_witness:
  "downloadFile (\<lambda>u. Inr (exampleResponse [[1, 2], [3]] (Some 3) True))
       ''https://example.test/lib'' ''demo.zip'' True = ([(2, 3), (3, 3)], Inr [1, 2, 3])
   \<and> sorted (map fst [(2 :: nat, 3 :: nat), (3, 3)])
   \<and> last [(2, 3), (3, 3)] = (length [1, 2, 3 :: 8 word], totalOf (exampleResponse [[1, 2], [3]] (Some 3) True))"
proof -
  have h: "downloadFile (\<lambda>u. Inr (exampleResponse [[1, 2], [3]] (Some 3) True))
       ''https://example.test/lib'' ''demo.zip'' True = ([(2, 3), (3, 3)], Inr [1, 2, 3])"
    by (simp add: downloadFile_def exampleResponse_def totalOf_def typedSet_def eval_nat_numeral)
  have f: "(\<lambda>u. Inr (exampleResponse [[1, 2], [3]] (Some 3) True)) (joinUrl ''https://example.test/lib'' ''demo.zip'')
      = (Inr (exampleResponse [[1, 2], [3]] (Some 3) True) :: error + response)"
    by simp
  have b: "hasBody (exampleResponse [[1, 2], [3]] (Some 3) True)"
    by (simp add: exampleResponse_def)
  show ?thesis
    using downloadFile_progress [OF f h] h b by simp
qed

text \<open>
  C4 as stated fails: a successful streamed fetch of an empty body never calls
  \<open>onProgress\<close>, and when the \<open>Content-Length\<close> header differs from the number of bytes
  the stream delivers, the final call has \<open>received \<noteq> total\<close>.
\<close>

theorem downloadFile_progress_counterexample:
  "downloadFile (\<lambda>u. Inr (exampleResponse [] None True))
       ''https://example.test/lib'' ''empty.zip'' True = ([], Inr [])
   \<and> downloadFile (\<lambda>u. Inr (exampleResponse [[1, 2]] (Some 5) True))
       ''https://example.test/lib'' ''demo.zip'' True = ([(2, 5)], Inr [1, 2])"
  by (simp add: downloadFile_def exampleResponse_def totalOf_def typedSet_def eval_nat_numeral)

section \<open>The catalog manifest\<close>

text \<open>
  C10. When the manifest is fetched successfully and parses to a JSON value that is not an
  array, \<open>fetchFileList\<close> fails with the error "Invalid library format. Expected a JSON
  array." and returns no items.
\<close>

theorem fetchFileList_not_array:
  assumes "fetch (joinUrl baseUrl ''library.json'') = Inr r"
    and "ok r" and "jsonBody r = Inr data" and "\<not> isArray data"
  shows "fetchFileList fetch baseUrl = Inl (Error ''Invalid library format. Expected a JSON array.'')"
  using assms by (simp add: fetchFileList_def)

theorem fetchFileList_not_array_witness:
  "\<not> isArray (JObject [(''items'', JArray [])])
   \<and> fetchFileList (\<lambda>u. Inr (exampleManifest (JObject [(''items'', JArray [])]))) ''https://example.test/lib''
       = Inl (Error ''Invalid library format. Expected a JSON array.'')"
  using fetchFileList_not_array
    [of "\<lambda>u. Inr (exampleManifest (JObject [(''items'', JArray [])]))" "''https://example.test/lib''"
        "exampleManifest (JObject [(''items'', JArray [])])" "JObject [(''items'', JArray [])]"]
  by (simp add: exampleManifest_def)

section \<open>The object store\<close>

lemma saveFileToDB_stored:
  assumes "saveFileToDB env K B db = (Inr u, db')"
  shows "version db' = DB_VERSION
       \<and> (\<exists>store. stores db' STORE_NAME = Some store \<and> store K = Some (Blob B ''application/zip''))"
  using assms
  by (auto simp: saveFileToDB_def openDB_def split: if_splits sum.splits option.splits)

text \<open>
  C6. For every key \<open>K\<close> and byte sequence \<open>B\<close>: once \<open>saveFileToDB\<close> has stored \<open>B\<close>
  under \<open>K\<close>, reading \<open>K\<close> with \<open>getFileFromDB\<close> right after returns exactly \<open>B\<close>.
\<close>

theorem save_then_get:
  assumes "saveFileToDB env K B db = (Inr u, db')"
  shows "fst (getFileFromDB IoOk K db') = Inr (Some B)"
proof -
  from saveFileToDB_stored [OF assms] obtain store where
    v: "version db' = DB_VERSION" and
    s: "stores db' STORE_NAME = Some store" and
    k: "store K = Some (Blob B ''application/zip'')"
    by blast
  have "openDB IoOk db' = Inr db'"
    using v by (simp add: openDB_def)
  then show ?thesis
    using s k by (simp add: getFileFromDB_def)
qed

theorem save_then_get_witness:
  "fst (saveFileToDB IoOk ''demo.zip'' [1, 2, 3] emptyDB) = Inr ()
   \<and> fst (getFileFromDB IoOk ''demo.zip'' (snd (saveFileToDB IoOk ''demo.zip'' [1, 2, 3] emptyDB)))
       = Inr (Some [1, 2, 3])"
proof -
  have h: "saveFileToDB IoOk ''demo.zip'' [1, 2, 3] emptyDB
         = (Inr (), snd (saveFileToDB IoOk ''demo.zip'' [1, 2, 3] emptyDB))"
    by (simp add: saveFileToDB_def openDB_def emptyDB_def DB_VERSION_def)
  show ?thesis
    using save_then_get [OF h] h by (metis fst_conv)
qed

text \<open>
  C7. For every key that is not present in the store, \<open>getFileFromDB\<close> succeeds and
  returns \<open>null\<close> (\<open>Inr None\<close>), not an error (\<open>Inl\<close>).
\<close>

theorem get_absent_key:
  assumes "dbInv db" and "keyAbsent K db"
  shows "fst (getFileFromDB IoOk K db) = Inr None"
  using assms
  by (auto simp: getFileFromDB_def openDB_def dbInv_def keyAbsent_def
           split: option.splits idbValue.splits)

theorem get_absent_key_witness:
  "dbInv emptyDB \<and> keyAbsent ''demo.zip'' emptyDB
   \<and> fst (getFileFromDB IoOk ''demo.zip'' emptyDB) = Inr None"
  using get_absent_key [of emptyDB "''demo.zip''"]
  by (simp add: dbInv_def keyAbsent_def emptyDB_def DB_VERSION_def)

lemma openDB_inv: "dbInv db \<Longrightarrow> openDB env db = Inr db1 \<Longrightarrow> dbInv db1"
  by (auto simp: openDB_def dbInv_def split: if_splits option.splits)

lemma saveFileToDB_inv: "dbInv db \<Longrightarrow> dbInv (snd (saveFileToDB env K B db))"
  by (auto simp: saveFileToDB_def openDB_def dbInv_def split: if_splits option.splits sum.splits)

lemma saveFileToDB_succeeds: "dbInv db \<Longrightarrow> fst (saveFileToDB IoOk K B db) = Inr ()"
  by (auto simp: saveFileToDB_def openDB_def dbInv_def split: if_splits option.splits sum.splits)

section \<open>Download failures in the catalog\<close>

lemma progressUpdates_touches:
  "list_all2 (\<lambda>f g. key g = key f \<and> (key f \<noteq> k \<longrightarrow> g = f)) prev
     (progressUpdates percentage clock k i lastUpdate calls prev)"
proof (induction calls arbitrary: prev i lastUpdate)
  case Nil
  then show ?case by (simp add: list_all2_refl)
next
  case (Cons c calls)
  obtain received totalLen where c: "c = (received, totalLen)" by (cases c)
  let ?R = "\<lambda>f g. key g = key f \<and> (key f \<noteq> k \<longrightarrow> g = f)"
  let ?h = "\<lambda>f. if key f = k \<and> downloadProgress f \<noteq> Some (percentage received totalLen)
                 then f\<lparr> downloadProgress := Some (percentage received totalLen) \<rparr> else f"
  have step: "list_all2 ?R prev (map ?h prev)"
    by (simp add: list_all2_map2 list_all2_refl)
  have trans: "list_all2 ?R prev zs" if "list_all2 ?R prev ys" "list_all2 ?R ys zs" for ys zs
    using that by (rule list_all2_trans [rotated]) auto
  show ?case
    unfolding c using Cons.IH step trans by (simp add: Let_def)
qed

lemma markDownloading_touches:
  "list_all2 (\<lambda>f g. key g = key f \<and> (key f \<noteq> k \<longrightarrow> g = f)) prev (markDownloading k prev)"
  by (simp add: markDownloading_def list_all2_map2 list_all2_refl)

lemma markSaving_touches:
  "list_all2 (\<lambda>f g. key g = key f \<and> (key f \<noteq> k \<longrightarrow> g = f)) prev (markSaving k prev)"
  by (simp add: markSaving_def list_all2_map2 list_all2_refl)

lemma touches_trans:
  assumes "list_all2 (\<lambda>f g. key g = key f \<and> (key f \<noteq> k \<longrightarrow> g = f)) xs ys"
    and "list_all2 (\<lambda>f g. key g = key f \<and> (key f \<noteq> k \<longrightarrow> g = f)) ys zs"
  shows "list_all2 (\<lambda>f g. key g = key f \<and> (key f \<noteq> k \<longrightarrow> g = f)) xs zs"
  using assms by (rule list_all2_trans [rotated]) auto

lemma markError_after:
  assumes "list_all2 (\<lambda>f g. key g = key f \<and> (key f \<noteq> k \<longrightarrow> g = f)) files mid"
  shows "list_all2 (\<lambda>f g. if key f = k
                          then status g = Failed \<and> errorMsg g = Some ''Download failed''
                          else g = f)
           files (markError k mid)"
  unfolding markError_def list_all2_map2
  by (rule list_all2_mono [OF assms]) auto

text \<open>
  C8 (as the code has it). When the download of the item with key \<open>k\<close> fails, in
  \<open>downloadFile\<close> or in \<open>saveFileToDB\<close>, every item with that key ends in status
  \<open>'error'\<close> with the message "Download failed", a status in which the card's button starts
  the download again; every other item is unchanged.
\<close>

theorem handleDownload_failure:
  assumes "handleDownload (Some url) fetch env percentage clock k files db = (files', db')"
    and "snd (downloadFile fetch url k True) = Inl e
         \<or> (\<exists>zipData. snd (downloadFile fetch url k True) = Inr zipData
                \<and> fst (saveFileToDB env k zipData db) = Inl e)"
  shows "list_all2 (\<lambda>f g. if key f = k
                          then status g = Failed \<and> errorMsg g = Some ''Download failed''
                               \<and> cardButton (status g) = StartDownload
                          else g = f)
           files files'"
proof -
  let ?R = "\<lambda>f g. key g = key f \<and> (key f \<noteq> k \<longrightarrow> g = f)"
  obtain calls res where d: "downloadFile fetch url k True = (calls, res)"
    by (cases "downloadFile fetch url k True")
  let ?mid = "progressUpdates percentage clock k 0 0 calls (markDownloading k files)"
  have mid: "list_all2 ?R files ?mid"
    by (rule touches_trans [OF markDownloading_touches progressUpdates_touches])
  have mid2: "list_all2 ?R files (markSaving k ?mid)"
    by (rule touches_trans [OF mid markSaving_touches])
  have "files' = markError k ?mid \<or> files' = markError k (markSaving k ?mid)"
    using assms d by (auto simp: handleDownload_def split: sum.splits prod.splits)
  then have "list_all2 (\<lambda>f g. if key f = k
                          then status g = Failed \<and> errorMsg g = Some ''Download failed''
                          else g = f) files files'"
  proof
    assume "files' = markError k ?mid"
    then show ?thesis by (simp only: markError_after [OF mid])
  next
    assume "files' = markError k (markSaving k ?mid)"
    then show ?thesis by (simp only: markError_after [OF mid2])
  qed
  then show ?thesis
    by (rule list_all2_mono) (auto split: if_splits)
qed

text \<open>
  C8 as stated fails: an item that was \<open>'remote'\<close> before a failed download is
  \<open>'error'\<close> after it, not \<open>'remote'\<close>.
\<close>

theorem handleDownload_failure_counterexample:
  "status exampleItem = Remote
   \<and> map status (fst (handleDownload (Some ''https://example.test/lib'') (\<lambda>u. Inl FetchRejected)
         IoOk (\<lambda>r t. 0) (\<lambda>i. 0) ''demo.zip'' [exampleItem] emptyDB)) = [Failed]"
  by (simp add: handleDownload_def downloadFile_def exampleItem_def markError_def
        markDownloading_def)

theorem handleDownload_failure_witness:
  "snd (downloadFile (\<lambda>u. Inl FetchRejected) ''https://example.test/lib'' ''demo.zip'' True)
     = Inl FetchRejected
   \<and> list_all2 (\<lambda>f g. if key f = ''demo.zip''
                        then status g = Failed \<and> errorMsg g = Some ''Download failed''
                             \<and> cardButton (status g) = StartDownload
                        else g = f)
        [exampleItem]
        (fst (handleDownload (Some ''https://example.test/lib'') (\<lambda>u. Inl FetchRejected)
                IoOk (\<lambda>r t. 0) (\<lambda>i. 0) ''demo.zip'' [exampleItem] emptyDB))"
proof -
  have h: "snd (downloadFile (\<lambda>u. Inl FetchRejected) ''https://example.test/lib'' ''demo.zip'' True)
     = Inl FetchRejected"
    by (simp add: downloadFile_def)
  show ?thesis
    using h handleDownload_failure
      [of "''https://example.test/lib''" "\<lambda>u. Inl FetchRejected" IoOk "\<lambda>r t. 0" "\<lambda>i. 0"
          "''demo.zip''"
          "[exampleItem]" emptyDB
          "fst (handleDownload (Some ''https://example.test/lib'') (\<lambda>u. Inl FetchRejected)
                IoOk (\<lambda>r t. 0) (\<lambda>i. 0) ''demo.zip'' [exampleItem] emptyDB)"
          "snd (handleDownload (Some ''https://example.test/lib'') (\<lambda>u. Inl FetchRejected)
                IoOk (\<lambda>r t. 0) (\<lambda>i. 0) ''demo.zip'' [exampleItem] emptyDB)"
          FetchRejected]
    by simp
qed

section \<open>Entry-point selection\<close>

lemma case_filter_find:
  "(case filter P xs of [] \<Rightarrow> a | x # _ \<Rightarrow> b x) = (case find P xs of None \<Rightarrow> a | Some x \<Rightarrow> b x)"
  by (induction xs) auto

lemma find_Some_name: "find (\<lambda>e. Q (name e)) files = Some e \<Longrightarrow> Q (name e)"
  by (induction files) (auto split: if_splits)

lemma find_by_name:
  "find (\<lambda>e. Q (name e)) files = Some e \<Longrightarrow> find (\<lambda>e'. name e' = name e) files = Some e"
  by (induction files) (auto split: if_splits dest: find_Some_name)

text \<open>
  C1 (as the code has it). Entry-point selection takes the first entry, in the archive's
  listed order, that is not a folder and whose whole path is \<open>index.html\<close> up to the case of
  its letters (an \<open>index.html\<close> at the root of the archive). If there is none, it takes the
  first entry whose lower-cased path ends in \<open>.html\<close>, and fails if that entry is a folder.
  If there is none either, it fails with "No HTML file found in the archive."
\<close>

theorem selectEntry_order:
  "selectEntry files =
     (case find (\<lambda>e. \<not> dir e \<and> toLowerCase (name e) = ''index.html'') files of
        Some e \<Rightarrow> Inr e
      | None \<Rightarrow>
          (case find (\<lambda>e. endsWith (toLowerCase (name e)) ''.html'') files of
             Some e \<Rightarrow> if dir e then Inl (Error ''No HTML file found in the archive.'') else Inr e
           | None \<Rightarrow> Inl (Error ''No HTML file found in the archive.'')))"
proof (cases "find (\<lambda>e. \<not> dir e \<and> toLowerCase (name e) = ''index.html'') files")
  case (Some e)
  then show ?thesis
    by (simp add: selectEntry_def zipFileRegex_def indexHtmlRegex_def case_filter_find)
next
  case None
  let ?Q = "\<lambda>n. endsWith (toLowerCase n) ''.html''"
  have names: "filter ?Q (map name files) = map name (filter (\<lambda>e. ?Q (name e)) files)"
    by (simp add: filter_map comp_def)
  show ?thesis
  proof (cases "find (\<lambda>e. ?Q (name e)) files")
    case n2: None
    then have "filter (\<lambda>e. ?Q (name e)) files = []"
      by (auto simp: find_None_iff filter_empty_conv)
    then show ?thesis
      using None n2
      by (simp add: selectEntry_def zipFileRegex_def indexHtmlRegex_def case_filter_find names)
  next
    case (Some e)
    then obtain rest where f: "filter (\<lambda>e. ?Q (name e)) files = e # rest"
      using case_filter_find [where P = "\<lambda>e. ?Q (name e)" and xs = files and a = None and b = Some]
      by (cases "filter (\<lambda>e. ?Q (name e)) files") auto
    have "zipFile files (name e) = (if dir e then None else Some e)"
      using find_by_name [OF Some] by (simp add: zipFile_def)
    then show ?thesis
      using None Some f
      by (simp add: selectEntry_def zipFileRegex_def indexHtmlRegex_def case_filter_find names)
  qed
qed

text \<open>
  C1 as stated fails: an \<open>index.html\<close> inside a folder does not take priority over an
  earlier \<open>.html\<close> entry, and an archive whose only document ends in \<open>.htm\<close> has no entry
  point.
\<close>

theorem selectEntry_counterexample:
  "selectEntry [fileEntry ''a.html'' (Some ''A''), fileEntry ''sub/index.html'' (Some ''B'')]
     = Inr (fileEntry ''a.html'' (Some ''A''))
   \<and> specSelectEntry [fileEntry ''a.html'' (Some ''A''), fileEntry ''sub/index.html'' (Some ''B'')]
     = Inr (fileEntry ''sub/index.html'' (Some ''B''))
   \<and> selectEntry [fileEntry ''notes.htm'' (Some ''C'')]
     = Inl (Error ''No HTML file found in the archive.'')
   \<and> specSelectEntry [fileEntry ''notes.htm'' (Some ''C'')]
     = Inr (fileEntry ''notes.htm'' (Some ''C''))"
  by code_simp

text \<open>The archive of the specification's example: \<open>foo/Index.HTML\<close> is selected, as the
  first entry ending in \<open>.html\<close>.\<close>

lemma selectEntry_spec_example:
  "selectEntry [fileEntry ''foo/Index.HTML'' (Some ''A''), fileEntry ''other.htm'' (Some ''B'')]
     = Inr (fileEntry ''foo/Index.HTML'' (Some ''A''))"
  by code_simp

section \<open>Asset materialization\<close>

lemma update_fresh: "k \<notin> fst ` set al \<Longrightarrow> AList.update k v al = al @ [(k, v)]"
  by (induction al) auto

lemma find_own_name:
  "distinct (map name files) \<Longrightarrow> e \<in> set files \<Longrightarrow> find (\<lambda>e'. name e' = name e) files = Some e"
  by (induction files) (auto simp: image_iff)

lemma zipFile_distinct:
  "distinct (map name files) \<Longrightarrow> e \<in> set files \<Longrightarrow>
   zipFile files (name e) = (if dir e then None else Some e)"
  by (simp add: zipFile_def find_own_name)

lemma materialize_general:
  assumes "\<forall>e \<in> set es. zipFile files (name e) = (if dir e then None else Some e)"
    and "distinct (map name es)"
    and "name ` set es \<inter> fst ` set am = {}"
  shows "materialize files (map name es) am s =
           (if list_all readable es
            then Inr (am @ assetsFor (nextId s) (filter assetEntry es))
            else Inl ZipError,
            s\<lparr> nextId := nextId s + length (filter assetEntry (takeWhile readable es)),
               live := live s @ handlesFor (nextId s) (filter assetEntry (takeWhile readable es)) \<rparr>)"
  using assms
proof (induction es arbitrary: am s)
  case Nil
  then show ?case by (simp add: assetsFor_def handlesFor_def)
next
  case (Cons e es)
  have zf: "zipFile files (name e) = (if dir e then None else Some e)"
    using Cons.prems(1) by simp
  have rest: "\<forall>e \<in> set es. zipFile files (name e) = (if dir e then None else Some e)"
    and dist: "distinct (map name es)"
    using Cons.prems by simp_all
  show ?case
  proof (cases "assetEntry e")
    case False
    have disj: "name ` set es \<inter> fst ` set am = {}"
      using Cons.prems(3) by auto
    have skip: "materialize files (map name (e # es)) am s = materialize files (map name es) am s"
      using False zf by (auto simp: assetEntry_def createBlobUrl_def Let_def)
    have re: "readable e"
      using False by (simp add: readable_def)
    show ?thesis
      unfolding skip Cons.IH [OF rest dist disj]
      using False re by simp
  next
    case True
    then have mime: "mimeOf (toLowerCase (name e)) \<noteq> []" and nd: "\<not> dir e"
      by (simp_all add: assetEntry_def)
    show ?thesis
    proof (cases "content e")
      case None
      have "materialize files (map name (e # es)) am s = (Inl ZipError, s)"
        using mime nd zf None by (simp add: createBlobUrl_def Let_def)
      moreover have "\<not> readable e"
        using True None by (simp add: readable_def)
      ultimately show ?thesis
        by (simp add: handlesFor_def)
    next
      case (Some blob)
      let ?url = "blobUrl (nextId s)"
      let ?s1 = "s\<lparr> nextId := Suc (nextId s),
                     live := live s @ [(?url, mimeOf (toLowerCase (name e)), blob)] \<rparr>"
      let ?am1 = "am @ [(name e, ?url)]"
      have fresh: "name e \<notin> fst ` set am"
        using Cons.prems(3) by auto
      have disj: "name ` set es \<inter> fst ` set ?am1 = {}"
        using Cons.prems(2,3) by (auto simp: image_iff)
      have step: "materialize files (map name (e # es)) am s = materialize files (map name es) ?am1 ?s1"
        using mime nd zf Some
        by (simp add: createBlobUrl_def createObjectURL_def Let_def update_fresh [OF fresh])
      have re: "readable e"
        using Some by (simp add: readable_def)
      show ?thesis
        unfolding step Cons.IH [OF rest dist disj]
        using True Some re
        by (simp add: assetsFor_def handlesFor_def handleOf_def)
    qed
  qed
qed

lemma mimeOf_classified:
  "mimeOf lower \<noteq> [] \<longleftrightarrow> (\<exists>(ext, m) \<in> set specMimeTable. endsWith lower ext)"
  by (simp add: mimeOf_def specMimeTable_def)

lemma endsWith_excl:
  assumes "endsWith l a" and "\<not> suffix a b" and "\<not> suffix b a"
  shows "\<not> endsWith l b"
  using assms suffix_same_cases [of a l b] by (auto simp: endsWith_def)

lemma mime_png: "endsWith l ''.png'' \<Longrightarrow> mimeOf l = ''image/png''"
  by (simp add: mimeOf_def)

lemma mime_jpg:
  assumes h: "endsWith l ''.jpg''"
  shows "mimeOf l = ''image/jpeg''"
proof -
  have "\<not> endsWith l ''.png''"
    by (rule endsWith_excl [OF h]) (simp_all add: suffix_to_prefix)
  then show ?thesis by (simp add: mimeOf_def h)
qed

lemma mime_jpeg:
  assumes h: "endsWith l ''.jpeg''"
  shows "mimeOf l = ''image/jpeg''"
proof -
  have "\<not> endsWith l ''.png''"
    by (rule endsWith_excl [OF h]) (simp_all add: suffix_to_prefix)
  then show ?thesis by (simp add: mimeOf_def h)
qed

lemma mime_svg:
  assumes h: "endsWith l ''.svg''"
  shows "mimeOf l = ''image/svg+xml''"
proof -
  have "\<not> endsWith l ''.png''"
    by (rule endsWith_excl [OF h]) (simp_all add: suffix_to_prefix)
  moreover have "\<not> endsWith l ''.jpg''"
    by (rule endsWith_excl [OF h]) (simp_all add: suffix_to_prefix)
  moreover have "\<not> endsWith l ''.jpeg''"
    by (rule endsWith_excl [OF h]) (simp_all add: suffix_to_prefix)
  ultimately show ?thesis by (simp add: mimeOf_def h)
qed

lemma mime_css:
  assumes h: "endsWith l ''.css''"
  shows "mimeOf l = ''text/css''"
proof -
  have "\<not> endsWith l ''.png''"
    by (rule endsWith_excl [OF h]) (simp_all add: suffix_to_prefix)
  moreover have "\<not> endsWith l ''.jpg''"
    by (rule endsWith_excl [OF h]) (simp_all add: suffix_to_prefix)
  moreover have "\<not> endsWith l ''.jpeg''"
    by (rule endsWith_excl [OF h]) (simp_all add: suffix_to_prefix)
  moreover have "\<not> endsWith l ''.svg''"
    by (rule endsWith_excl [OF h]) (simp_all add: suffix_to_prefix)
  ultimately show ?thesis by (simp add: mimeOf_def h)
qed

lemma mime_js:
  assumes h: "endsWith l ''.js''"
  shows "mimeOf l = ''application/javascript''"
proof -
  have "\<not> endsWith l ''.png''"
    by (rule endsWith_excl [OF h]) (simp_all add: suffix_to_prefix)
  moreover have "\<not> endsWith l ''.jpg''"
    by (rule endsWith_excl [OF h]) (simp_all add: suffix_to_prefix)
  moreover have "\<not> endsWith l ''.jpeg''"
    by (rule endsWith_excl [OF h]) (simp_all add: suffix_to_prefix)
  moreover have "\<not> endsWith l ''.svg''"
    by (rule endsWith_excl [OF h]) (simp_all add: suffix_to_prefix)
  moreover have "\<not> endsWith l ''.css''"
    by (rule endsWith_excl [OF h]) (simp_all add: suffix_to_prefix)
  ultimately show ?thesis by (simp add: mimeOf_def h)
qed

lemma mimeOf_table:
  "list_all (\<lambda>(ext, m). endsWith lower ext \<longrightarrow> mimeOf lower = m) specMimeTable"
proof -
  have "endsWith lower ''.png'' \<longrightarrow> mimeOf lower = ''image/png''"
    and "endsWith lower ''.jpg'' \<longrightarrow> mimeOf lower = ''image/jpeg''"
    and "endsWith lower ''.jpeg'' \<longrightarrow> mimeOf lower = ''image/jpeg''"
    and "endsWith lower ''.svg'' \<longrightarrow> mimeOf lower = ''image/svg+xml''"
    and "endsWith lower ''.css'' \<longrightarrow> mimeOf lower = ''text/css''"
    and "endsWith lower ''.js'' \<longrightarrow> mimeOf lower = ''application/javascript''"
    using mime_png mime_jpg mime_jpeg mime_svg mime_css mime_js by blast+
  then show ?thesis
    unfolding specMimeTable_def list.pred_inject prod.case by (intro conjI; simp)
qed

text \<open>
  C9 (as the code has it). When the materialization loop runs to its end, which it does
  when every asset entry can be read, the asset map and the handles created are exactly
  those of the entries that are not folders and whose lower-cased name ends in \<open>.png\<close>,
  \<open>.jpg\<close>, \<open>.jpeg\<close>, \<open>.svg\<close>, \<open>.css\<close> or \<open>.js\<close>, in the archive's order, each with the media
  type the table gives for its extension; no other entry (a folder, a \<open>.gif\<close>, a \<open>.woff\<close>)
  gets a handle, and the document of a successful resolution is rewritten for the entries
  of the asset map only.
\<close>

theorem materialize_exact:
  assumes "distinct (map name files)"
    and "materialize files (map name files) [] s = (Inr assetMap, s')"
  shows "assetMap = assetsFor (nextId s) (filter assetEntry files)
       \<and> live s' = live s @ handlesFor (nextId s) (filter assetEntry files)
       \<and> (\<forall>e. assetEntry e \<longleftrightarrow>
              \<not> dir e \<and> (\<exists>(ext, m) \<in> set specMimeTable. endsWith (toLowerCase (name e)) ext))
       \<and> (\<forall>lower. list_all (\<lambda>(ext, m). endsWith lower ext \<longrightarrow> mimeOf lower = m) specMimeTable)
       \<and> (\<forall>entryFile html.
             selectEntry files = Inr entryFile \<and> content entryFile = Some html \<longrightarrow>
             processZipContent (Inr files) s = (Inr (replaceReferences assetMap html), s'))"
proof -
  have zf: "\<forall>e \<in> set files. zipFile files (name e) = (if dir e then None else Some e)"
    using assms(1) by (simp add: zipFile_distinct)
  have gen: "materialize files (map name files) [] s =
           (if list_all readable files
            then Inr ([] @ assetsFor (nextId s) (filter assetEntry files))
            else Inl ZipError,
            s\<lparr> nextId := nextId s + length (filter assetEntry (takeWhile readable files)),
               live := live s @ handlesFor (nextId s) (filter assetEntry (takeWhile readable files)) \<rparr>)"
    by (rule materialize_general [OF zf assms(1)]) simp
  have all: "list_all readable files"
    using gen assms(2) by (auto split: if_splits)
  then have tw: "takeWhile readable files = files"
    by (simp add: list_all_iff)
  have 1: "assetMap = assetsFor (nextId s) (filter assetEntry files)"
    using gen assms(2) all by simp
  have "s' = s\<lparr> nextId := nextId s + length (filter assetEntry files),
               live := live s @ handlesFor (nextId s) (filter assetEntry files) \<rparr>"
    using gen assms(2) tw by simp
  then have 2: "live s' = live s @ handlesFor (nextId s) (filter assetEntry files)"
    by simp
  have 3: "\<forall>e. assetEntry e \<longleftrightarrow>
              \<not> dir e \<and> (\<exists>(ext, m) \<in> set specMimeTable. endsWith (toLowerCase (name e)) ext)"
    unfolding assetEntry_def mimeOf_classified by simp
  have 4: "\<forall>lower. list_all (\<lambda>(ext, m). endsWith lower ext \<longrightarrow> mimeOf lower = m) specMimeTable"
    using mimeOf_table by simp
  have 5: "\<forall>entryFile html.
             selectEntry files = Inr entryFile \<and> content entryFile = Some html \<longrightarrow>
             processZipContent (Inr files) s = (Inr (replaceReferences assetMap html), s')"
    using assms(2) by (simp add: processZipContent_def)
  show ?thesis
    using 1 2 3 4 5 by (intro conjI)
qed

text \<open>
  C3 (as the code has it). When an asset entry cannot be read after the entry point was
  loaded, the whole resolution aborts with that error and returns no document. Nothing is
  released: the handles created for the asset entries before the failing one are all still
  registered when the failed resolution returns.
\<close>

theorem processZipContent_partial_failure:
  assumes "distinct (map name (pre @ bad # post))"
    and "selectEntry (pre @ bad # post) = Inr entryFile"
    and "content entryFile = Some html"
    and "list_all readable pre"
    and "assetEntry bad" and "content bad = None"
  shows "processZipContent (Inr (pre @ bad # post)) s =
           (Inl ZipError,
            s\<lparr> nextId := nextId s + length (filter assetEntry pre),
               live := live s @ handlesFor (nextId s) (filter assetEntry pre) \<rparr>)"
proof -
  let ?files = "pre @ bad # post"
  have zf: "\<forall>e \<in> set ?files. zipFile ?files (name e) = (if dir e then None else Some e)"
    using assms(1) zipFile_distinct by blast
  have gen: "materialize ?files (map name ?files) [] s =
           (if list_all readable ?files
            then Inr ([] @ assetsFor (nextId s) (filter assetEntry ?files))
            else Inl ZipError,
            s\<lparr> nextId := nextId s + length (filter assetEntry (takeWhile readable ?files)),
               live := live s @ handlesFor (nextId s) (filter assetEntry (takeWhile readable ?files)) \<rparr>)"
    by (rule materialize_general [OF zf assms(1)]) simp
  have nr: "\<not> readable bad"
    using assms(5,6) by (simp add: readable_def)
  have tw: "takeWhile readable ?files = pre"
    using assms(4) nr by (simp add: list_all_iff takeWhile_append2)
  have nall: "\<not> list_all readable ?files"
    using nr by simp
  have "materialize ?files (map name ?files) [] s =
           (Inl ZipError,
            s\<lparr> nextId := nextId s + length (filter assetEntry pre),
               live := live s @ handlesFor (nextId s) (filter assetEntry pre) \<rparr>)"
    unfolding gen tw using nall by simp
  then show ?thesis
    using assms(2,3) by (simp add: processZipContent_def)
qed

theorem materialize_exact_witness:
  "distinct (map name exampleArchive)
   \<and> materialize exampleArchive (map name exampleArchive) [] noBlobs =
         (Inr [(''logo.PNG'', ''blob:0''), (''css/style.css'', ''blob:1'')],
          \<lparr> nextId = 2, live = [(''blob:0'', ''image/png'', ''PNG''),
                                (''blob:1'', ''text/css'', ''body {}'')] \<rparr>)
   \<and> [(''logo.PNG'', ''blob:0''), (''css/style.css'', ''blob:1'')]
       = assetsFor (nextId noBlobs) (filter assetEntry exampleArchive)"
proof -
  have a: "distinct (map name exampleArchive)"
    by code_simp
  have b: "materialize exampleArchive (map name exampleArchive) [] noBlobs =
         (Inr [(''logo.PNG'', ''blob:0''), (''css/style.css'', ''blob:1'')],
          \<lparr> nextId = 2, live = [(''blob:0'', ''image/png'', ''PNG''),
                                (''blob:1'', ''text/css'', ''body {}'')] \<rparr>)"
    by code_simp
  show ?thesis
    using materialize_exact [OF a b] a b by blast
qed

text \<open>
  C9 as stated fails when the resolution does not succeed: \<open>c.css\<close>, a file with one of the
  extensions, gets no handle when \<open>b.png\<close> before it cannot be read, and \<open>a.png\<close> gets none
  in an archive without an entry point.
\<close>

theorem materialize_exact_counterexample:
  "assetEntry (fileEntry ''c.css'' (Some ''body {}''))
   \<and> processZipContent
         (Inr (brokenArchivePre @ [fileEntry ''b.png'' None, fileEntry ''c.css'' (Some ''body {}'')]))
         noBlobs
       = (Inl ZipError, \<lparr> nextId = 1, live = [(''blob:0'', ''image/png'', ''PNG'')] \<rparr>)
   \<and> assetEntry (fileEntry ''a.png'' (Some ''PNG''))
   \<and> processZipContent (Inr [fileEntry ''a.png'' (Some ''PNG'')]) noBlobs
       = (Inl (Error ''No HTML file found in the archive.''), \<lparr> nextId = 0, live = [] \<rparr>)"
  by code_simp

theorem processZipContent_partial_failure_witness:
  "list_all readable brokenArchivePre
   \<and> assetEntry (fileEntry ''b.png'' None)
   \<and> processZipContent (Inr (brokenArchivePre @ fileEntry ''b.png'' None # [])) noBlobs =
           (Inl ZipError,
            noBlobs\<lparr> nextId := nextId noBlobs + length (filter assetEntry brokenArchivePre),
               live := live noBlobs @ handlesFor (nextId noBlobs) (filter assetEntry brokenArchivePre) \<rparr>)"
proof -
  have a: "distinct (map name (brokenArchivePre @ fileEntry ''b.png'' None # []))"
    by code_simp
  have b: "selectEntry (brokenArchivePre @ fileEntry ''b.png'' None # [])
             = Inr (fileEntry ''index.html'' (Some ''<html></html>''))"
    by code_simp
  have c: "content (fileEntry ''index.html'' (Some ''<html></html>'')) = Some ''<html></html>''"
    by code_simp
  have d: "list_all readable brokenArchivePre"
    by code_simp
  have e: "assetEntry (fileEntry ''b.png'' None)"
    by code_simp
  have f: "content (fileEntry ''b.png'' None) = None"
    by code_simp
  show ?thesis
    using processZipContent_partial_failure [OF a b c d e f, of noBlobs] d e by blast
qed

text \<open>
  C3 as stated fails: with \<open>a.png\<close> readable and \<open>b.png\<close> not, the resolution fails and the
  handle of \<open>a.png\<close> outlives it.
\<close>

theorem processZipContent_partial_failure_counterexample:
  "processZipContent (Inr (brokenArchivePre @ [fileEntry ''b.png'' None])) noBlobs
     = (Inl ZipError, \<lparr> nextId = 1, live = [(''blob:0'', ''image/png'', ''PNG'')] \<rparr>)"
  by code_simp

section \<open>Reference rewriting\<close>

lemma matchLit_Some: "matchLit lit txt = Some rest \<longleftrightarrow> txt = lit @ rest"
  by (auto simp: matchLit_def prefix_def)

lemma matchLit_append: "matchLit lit (lit @ rest) = Some rest"
  by (simp add: matchLit_Some)

lemma matchQuote_Some: "matchQuote txt = Some rest \<longleftrightarrow> (\<exists>q. isQuote q \<and> txt = q # rest)"
  by (cases "txt") (auto simp: isQuote_def)

lemma matchNameQuote_Some:
  "matchNameQuote filename txt = Some rest \<longleftrightarrow> (\<exists>q. isQuote q \<and> txt = filename @ q # rest)"
proof
  assume "matchNameQuote filename txt = Some rest"
  then obtain r where "matchLit filename txt = Some r" and "matchQuote r = Some rest"
    by (auto simp: matchNameQuote_def split: option.splits)
  then show "\<exists>q. isQuote q \<and> txt = filename @ q # rest"
    by (auto simp: matchLit_Some matchQuote_Some)
next
  assume "\<exists>q. isQuote q \<and> txt = filename @ q # rest"
  then obtain q where q: "isQuote q" and t: "txt = filename @ q # rest"
    by blast
  have "matchQuote (q # rest) = Some rest"
    using q by (simp add: isQuote_def)
  then show "matchNameQuote filename txt = Some rest"
    unfolding t matchNameQuote_def matchLit_append by simp
qed

lemma matchPath_sound:
  assumes "matchPath filename txt = Some rest"
  shows "\<exists>dot q. (dot = ''./'' \<or> dot = []) \<and> isQuote q \<and> txt = dot @ filename @ q # rest"
proof -
  from assms consider
      r where "matchLit ''./'' txt = Some r" "matchNameQuote filename r = Some rest"
    | "matchNameQuote filename txt = Some rest"
    by (auto simp: matchPath_def split: option.splits)
  then show ?thesis
  proof cases
    case 1
    then obtain q where "isQuote q" "txt = ''./'' @ filename @ q # rest"
      by (auto simp: matchLit_Some matchNameQuote_Some)
    then show ?thesis by blast
  next
    case 2
    then obtain q where "isQuote q" "txt = [] @ filename @ q # rest"
      by (auto simp: matchNameQuote_Some)
    then show ?thesis by blast
  qed
qed

lemma matchAttr_sound:
  assumes "matchAttr attr filename txt = Some (a, rest)"
  shows "a = attr \<and> (\<exists>q1 dot q2. isQuote q1 \<and> (dot = ''./'' \<or> dot = []) \<and> isQuote q2
                  \<and> txt = refForm attr q1 dot filename q2 @ rest)"
proof -
  from assms obtain t0 t1 t2 where
    0: "matchLit attr txt = Some t0" and 1: "matchLit ''='' t0 = Some t1"
    and 2: "matchQuote t1 = Some t2" and 3: "matchPath filename t2 = Some rest" and a: "a = attr"
    by (auto simp: matchAttr_def split: option.splits)
  from 2 obtain q1 where q1: "isQuote q1" "t1 = q1 # t2"
    by (auto simp: matchQuote_Some)
  from matchPath_sound [OF 3] obtain dot q2 where
    d: "dot = ''./'' \<or> dot = []" and q2: "isQuote q2" and t2: "t2 = dot @ filename @ q2 # rest"
    by blast
  have "txt = refForm attr q1 dot filename q2 @ rest"
    using 0 1 q1(2) t2 by (simp add: matchLit_Some refForm_def)
  then show ?thesis
    using a q1(1) d q2 by blast
qed

lemma matchRef_sound:
  assumes "matchRef filename txt = Some (a, rest)"
  shows "(a = ''src'' \<or> a = ''href'')
   \<and> (\<exists>q1 dot q2. isQuote q1 \<and> (dot = ''./'' \<or> dot = []) \<and> isQuote q2
          \<and> txt = refForm a q1 dot filename q2 @ rest)"
proof -
  from assms have "matchAttr ''src'' filename txt = Some (a, rest)
                 \<or> matchAttr ''href'' filename txt = Some (a, rest)"
    by (auto simp: matchRef_def split: option.splits)
  then show ?thesis
  proof
    assume h: "matchAttr ''src'' filename txt = Some (a, rest)"
    show ?thesis using matchAttr_sound [OF h] by blast
  next
    assume h: "matchAttr ''href'' filename txt = Some (a, rest)"
    show ?thesis using matchAttr_sound [OF h] by blast
  qed
qed

lemma dot_slash_period:
  "g @ u = ''./'' @ g @ v \<Longrightarrow> u = ''./'' @ v \<or> u = ''/.'' @ v"
  by (induction g rule: induct_list012) auto

lemma quote_not_dot: "isQuote q \<Longrightarrow> q \<noteq> CHR ''.'' \<and> q \<noteq> CHR ''/''"
  by (auto simp: isQuote_def dquote_def squote_def)

lemma matchPath_complete:
  assumes "isQuote q" and "dot = ''./'' \<or> dot = []"
  shows "matchPath filename (dot @ filename @ q # rest) = Some rest"
proof -
  have nq: "matchNameQuote filename (filename @ q # rest) = Some rest"
    using assms(1) by (auto simp: matchNameQuote_Some)
  from assms(2) show ?thesis
  proof
    assume "dot = ''./''"
    then show ?thesis
      using nq matchLit_append [of "''./''" "filename @ q # rest"]
      by (simp add: matchPath_def)
  next
    assume d: "dot = []"
    have none: "matchNameQuote filename r = None"
      if "matchLit ''./'' (filename @ q # rest) = Some r" for r
    proof (rule ccontr)
      assume "matchNameQuote filename r \<noteq> None"
      then obtain rest' where "matchNameQuote filename r = Some rest'"
        by auto
      then obtain q' where "r = filename @ q' # rest'"
        by (auto simp: matchNameQuote_Some)
      with that have "filename @ (q # rest) = ''./'' @ filename @ (q' # rest')"
        by (simp add: matchLit_Some)
      from dot_slash_period [OF this] show False
        using quote_not_dot [OF assms(1)] by auto
    qed
    show ?thesis
    proof (cases "matchLit ''./'' (filename @ q # rest)")
      case None
      then show ?thesis using nq d by (simp add: matchPath_def)
    next
      case (Some r)
      then show ?thesis using nq d none [OF Some] by (simp add: matchPath_def)
    qed
  qed
qed

lemma matchAttr_complete:
  assumes "isQuote q1" and "isQuote q2" and "dot = ''./'' \<or> dot = []"
  shows "matchAttr attr filename (refForm attr q1 dot filename q2 @ rest) = Some (attr, rest)"
proof -
  have 1: "matchLit attr (refForm attr q1 dot filename q2 @ rest)
             = Some (''='' @ q1 # dot @ filename @ q2 # rest)"
    by (simp add: matchLit_Some refForm_def)
  have 2: "matchLit ''='' (''='' @ q1 # dot @ filename @ q2 # rest)
             = Some (q1 # dot @ filename @ q2 # rest)"
    by (rule matchLit_append)
  have 3: "matchQuote (q1 # dot @ filename @ q2 # rest) = Some (dot @ filename @ q2 # rest)"
    using assms(1) by (simp add: isQuote_def)
  have 4: "matchPath filename (dot @ filename @ q2 # rest) = Some rest"
    by (rule matchPath_complete [OF assms(2,3)])
  show ?thesis
    unfolding matchAttr_def 1 by (simp only: 2 3 4 option.case)
qed

lemma matchRef_complete:
  assumes "attr = ''src'' \<or> attr = ''href''"
    and "isQuote q1" and "isQuote q2" and "dot = ''./'' \<or> dot = []"
  shows "matchRef filename (refForm attr q1 dot filename q2 @ rest) = Some (attr, rest)"
proof -
  from assms(1) show ?thesis
  proof
    assume "attr = ''src''"
    then show ?thesis
      using matchAttr_complete [OF assms(2,3,4)] by (simp add: matchRef_def)
  next
    assume h: "attr = ''href''"
    have "matchAttr ''src'' filename (refForm ''href'' q1 dot filename q2 @ rest) = None"
      by (simp add: matchAttr_def matchLit_def refForm_def)
    then show ?thesis
      using h matchAttr_complete [OF assms(2,3,4)] by (simp add: matchRef_def)
  qed
qed

lemma refForms_set:
  "form \<in> set (refForms filename) \<longleftrightarrow>
     (\<exists>a q1 dot q2. (a = ''src'' \<or> a = ''href'') \<and> isQuote q1 \<and> (dot = ''./'' \<or> dot = [])
        \<and> isQuote q2 \<and> form = refForm a q1 dot filename q2)"
  by (auto simp: refForms_def isQuote_def)

lemma matchRef_iff_form:
  "matchRef filename txt \<noteq> None \<longleftrightarrow> (\<exists>form \<in> set (refForms filename). prefix form txt)"
proof
  assume "matchRef filename txt \<noteq> None"
  then obtain a rest where "matchRef filename txt = Some (a, rest)"
    by auto
  from matchRef_sound [OF this] obtain q1 dot q2 where
    "a = ''src'' \<or> a = ''href''" "isQuote q1" "dot = ''./'' \<or> dot = []" "isQuote q2"
    "txt = refForm a q1 dot filename q2 @ rest"
    by blast
  then have "refForm a q1 dot filename q2 \<in> set (refForms filename)"
    and "prefix (refForm a q1 dot filename q2) txt"
    by (auto simp: refForms_set)
  then show "\<exists>form \<in> set (refForms filename). prefix form txt"
    by blast
next
  assume "\<exists>form \<in> set (refForms filename). prefix form txt"
  then obtain form rest where f: "form \<in> set (refForms filename)" and t: "txt = form @ rest"
    by (auto simp: prefix_def)
  from f obtain a q1 dot q2 where
    "a = ''src'' \<or> a = ''href''" "isQuote q1" "dot = ''./'' \<or> dot = []" "isQuote q2"
    "form = refForm a q1 dot filename q2"
    unfolding refForms_set by blast
  then show "matchRef filename txt \<noteq> None"
    using matchRef_complete [of a q1 q2 dot filename rest] t by simp
qed

lemma refAt_iff: "refAt filename txt i \<longleftrightarrow> matchRef filename (drop i txt) \<noteq> None"
  unfolding refAt_def list_ex_iff matchRef_iff_form ..

lemma replaceScan_skip: "replaceScan f u k t = replaceScan f u 0 (drop k t)"
proof (induction k arbitrary: t)
  case 0
  then show ?case by simp
next
  case (Suc k)
  then show ?case by (cases t) simp_all
qed

lemma replaceScan_match:
  assumes "matchRef f t = Some (a, rest)"
  shows "replaceScan f u 0 t = a @ ''='' @ [dquote] @ u @ [dquote] @ replaceScan f u 0 rest"
proof -
  from matchRef_sound [OF assms] obtain q1 dot q2 where
    t: "t = refForm a q1 dot f q2 @ rest" and a: "a = ''src'' \<or> a = ''href''"
    by blast
  from a obtain c m where m: "refForm a q1 dot f q2 = c # m"
    by (auto simp: refForm_def)
  have t': "t = c # (m @ rest)"
    using t m by simp
  have "replaceScan f u 0 t
      = a @ ''='' @ [dquote] @ u @ [dquote] @ replaceScan f u (length (m @ rest) - length rest) (m @ rest)"
    using assms unfolding t' by simp
  also have "replaceScan f u (length (m @ rest) - length rest) (m @ rest) = replaceScan f u 0 rest"
    by (subst replaceScan_skip) simp
  finally show ?thesis .
qed

lemma replaceScan_copy:
  "list_all (\<lambda>i. \<not> refAt f (pre @ t) i) [0..<length pre] \<Longrightarrow>
   replaceScan f u 0 (pre @ t) = pre @ replaceScan f u 0 t"
proof (induction pre)
  case Nil
  then show ?case by simp
next
  case (Cons c pre)
  have all: "\<not> refAt f (c # pre @ t) i" if "i < Suc (length pre)" for i
    using Cons.prems that by (auto simp: list_all_iff simp del: upt_Suc)
  have 0: "matchRef f (c # pre @ t) = None"
    using all [of 0] by (cases "matchRef f (c # pre @ t)") (auto simp: refAt_iff)
  have "\<not> refAt f (pre @ t) i" if "i < length pre" for i
    using all [of "Suc i"] that by (simp add: refAt_iff)
  then have "list_all (\<lambda>i. \<not> refAt f (pre @ t) i) [0..<length pre]"
    unfolding list_all_iff by auto
  from Cons.IH [OF this] show ?case
    using 0 by simp
qed

lemma replaceScan_unchanged: "\<not> hasRef f t \<Longrightarrow> replaceScan f u 0 t = t"
  using replaceScan_copy [of f t "[]" u] by (simp add: hasRef_def list_all_iff list_ex_iff)

lemma replaceReferences_unchanged:
  "list_all (\<lambda>(f, u). \<not> hasRef f html) assetMap \<Longrightarrow> replaceReferences assetMap html = html"
  unfolding replaceReferences_def
  by (induction assetMap) (auto simp: replaceScan_unchanged)

text \<open>
  C2 (as the code has it). A text in which no asset of the map has an occurrence is
  returned unchanged, byte for byte. For one asset, the scan copies the text up to the
  first occurrence of \<open>src\<close> or \<open>href\<close>, \<open>=\<close>, a quote, optionally \<open>./\<close>, the asset's exact
  path, and a quote (the two quotes each double or single, also when they differ), replaces
  that occurrence by the attribute name, \<open>="\<close>, the locator and \<open>"\<close>, and goes on in the
  same way after it. The assets are treated one after the other, in the order of the asset
  map, each pass on the output of the pass before.
\<close>

theorem replaceReferences_exact:
  "(list_all (\<lambda>(f, u). \<not> hasRef f html) assetMap \<longrightarrow> replaceReferences assetMap html = html)
   \<and> ((attr = ''src'' \<or> attr = ''href'') \<and> isQuote q1 \<and> isQuote q2 \<and> (dot = ''./'' \<or> dot = [])
        \<and> list_all (\<lambda>i. \<not> refAt filename (pre @ refForm attr q1 dot filename q2 @ post) i)
             [0..<length pre]
      \<longrightarrow> replaceScan filename url 0 (pre @ refForm attr q1 dot filename q2 @ post)
            = pre @ attr @ ''='' @ [dquote] @ url @ [dquote] @ replaceScan filename url 0 post)
   \<and> replaceReferences (assetMap @ [(filename, url)]) html
       = replaceScan filename url 0 (replaceReferences assetMap html)"
proof (intro conjI impI)
  assume "list_all (\<lambda>(f, u). \<not> hasRef f html) assetMap"
  then show "replaceReferences assetMap html = html"
    by (rule replaceReferences_unchanged)
next
  assume h: "(attr = ''src'' \<or> attr = ''href'') \<and> isQuote q1 \<and> isQuote q2 \<and> (dot = ''./'' \<or> dot = [])
        \<and> list_all (\<lambda>i. \<not> refAt filename (pre @ refForm attr q1 dot filename q2 @ post) i)
             [0..<length pre]"
  then have m: "matchRef filename (refForm attr q1 dot filename q2 @ post) = Some (attr, post)"
    using matchRef_complete by blast
  have "replaceScan filename url 0 (pre @ refForm attr q1 dot filename q2 @ post)
          = pre @ replaceScan filename url 0 (refForm attr q1 dot filename q2 @ post)"
    using h by (intro replaceScan_copy) blast
  then show "replaceScan filename url 0 (pre @ refForm attr q1 dot filename q2 @ post)
            = pre @ attr @ ''='' @ [dquote] @ url @ [dquote] @ replaceScan filename url 0 post"
    by (simp only: replaceScan_match [OF m])
next
  show "replaceReferences (assetMap @ [(filename, url)]) html
       = replaceScan filename url 0 (replaceReferences assetMap html)"
    by (simp add: replaceReferences_def)
qed

text \<open>
  C2 as stated fails: \<open>src="logo.png'\<close>, opened by a double quote and closed by a single
  one, is none of the four forms of the specification, and it is rewritten.
\<close>

theorem replaceReferences_counterexample:
  "\<not> specHasRef ''logo.png'' mixedQuoteHtml
   \<and> replaceReferences [(''logo.png'', ''blob:0'')] mixedQuoteHtml
       = ''<img src='' @ [dquote] @ ''blob:0'' @ [dquote] @ ''>''"
  by code_simp

text \<open>The specification's example: \<open>src="./logo.png"\<close> is rewritten, and the reference to
  \<open>missing.png\<close> after it is left as it is.\<close>

theorem replaceReferences_exact_witness:
  "list_all (\<lambda>(f, u). \<not> hasRef f exampleHtmlPost) [(''logo.png'', ''blob:0'')]
   \<and> list_all (\<lambda>i. \<not> refAt ''logo.png''
                  (''<img '' @ refForm ''src'' dquote ''./'' ''logo.png'' dquote @ exampleHtmlPost) i)
         [0..<length ''<img '']
   \<and> replaceReferences [(''logo.png'', ''blob:0'')]
         (''<img '' @ refForm ''src'' dquote ''./'' ''logo.png'' dquote @ exampleHtmlPost)
       = ''<img '' @ ''src'' @ ''='' @ [dquote] @ ''blob:0'' @ [dquote] @ exampleHtmlPost"
proof -
  have h1: "list_all (\<lambda>(f, u). \<not> hasRef f exampleHtmlPost) [(''logo.png'', ''blob:0'')]"
    by code_simp
  have h2: "list_all (\<lambda>i. \<not> refAt ''logo.png''
                  (''<img '' @ refForm ''src'' dquote ''./'' ''logo.png'' dquote @ exampleHtmlPost) i)
         [0..<length ''<img '']"
    by code_simp
  have q: "isQuote dquote"
    by (simp add: isQuote_def)
  note T = replaceReferences_exact
    [where html = exampleHtmlPost and assetMap = "[(''logo.png'', ''blob:0'')]"
       and attr = "''src''" and ?q1.0 = dquote and ?q2.0 = dquote and dot = "''./''"
       and pre = "''<img ''" and filename = "''logo.png''" and post = exampleHtmlPost
       and url = "''blob:0''"]
  have a: "replaceReferences [(''logo.png'', ''blob:0'')] exampleHtmlPost = exampleHtmlPost"
    using T h1 by blast
  have b: "replaceScan ''logo.png'' ''blob:0'' 0
             (''<img '' @ refForm ''src'' dquote ''./'' ''logo.png'' dquote @ exampleHtmlPost)
           = ''<img '' @ ''src'' @ ''='' @ [dquote] @ ''blob:0'' @ [dquote]
               @ replaceScan ''logo.png'' ''blob:0'' 0 exampleHtmlPost"
    using T h2 q by blast
  have c: "replaceReferences [(''logo.png'', ''blob:0'')] x = replaceScan ''logo.png'' ''blob:0'' 0 x"
    for x
    by (simp add: replaceReferences_def)
  have "replaceReferences [(''logo.png'', ''blob:0'')]
         (''<img '' @ refForm ''src'' dquote ''./'' ''logo.png'' dquote @ exampleHtmlPost)
       = ''<img '' @ ''src'' @ ''='' @ [dquote] @ ''blob:0'' @ [dquote] @ exampleHtmlPost"
    using a b unfolding c by (simp only:)
  then show ?thesis
    using h1 h2 by blast
qed

end
